theory Spec2Isabelle
  imports Main "HOL-Library.Word" "HOL-Library.Sublist"
begin

section \<open>The task service of task.go\<close>

text \<open>
  The program keeps its tasks in one global map guarded by a mutex, next to a global
  counter of identifiers, and serves four HTTP handlers on them. Every handler holds the
  mutex while it reads or writes the map, so a run of the server is a sequence of whole
  handler executions; the model passes the two globals along as a state record and
  returns, for each handler, the response written and the state left behind.
\<close>

subsection \<open>Data\<close>

text \<open>
  Go's \<^verbatim>\<open>int\<close> is the 64-bit two's complement integer of the usual server
  targets: \<^verbatim>\<open>taskIDCounter++\<close> wraps around from \<open>2^63 - 1\<close> to \<open>- 2^63\<close>, and
  identifiers are compared through \<open>sint\<close>. A \<^verbatim>\<open>time.Time\<close> is an instant: the
  model counts its seconds from the start of the year 0 of the instant's own calendar.
  Of an instant the program depends on the year only, which the JSON encoder wants
  between 0 and 9999; these ten thousand years are 25 cycles of 146097 days.
\<close>

type_synonym go_int = "64 word"
type_synonym Time = int

definition year_in_range :: "Time \<Rightarrow> bool" where
  "year_in_range t \<longleftrightarrow> 0 \<le> t \<and> t < 25 * 146097 * 86400"

record Task =
  ID :: go_int
  Title :: string
  Completed :: bool
  CreatedAt :: Time

text \<open>
  The globals \<^verbatim>\<open>taskDB.tasks\<close> (a \<^verbatim>\<open>map[int]Task\<close>) and \<^verbatim>\<open>taskIDCounter\<close>.
\<close>

record State =
  tasks :: "go_int \<rightharpoonup> Task"
  taskIDCounter :: go_int

definition initial_State :: State where
  "initial_State = \<lparr>tasks = Map.empty, taskIDCounter = 1\<rparr>"

text \<open>
  A slice is \<^verbatim>\<open>nil\<close> or holds a sequence of elements; \<^verbatim>\<open>append\<close> to a nil slice
  allocates, so its result is never nil.
\<close>

datatype 'a slice = NilSlice | Slice "'a list"

fun append_slice :: "'a slice \<Rightarrow> 'a \<Rightarrow> 'a slice" where
  "append_slice NilSlice x = Slice [x]"
| "append_slice (Slice xs) x = Slice (xs @ [x])"

fun elems :: "'a slice \<Rightarrow> 'a list" where
  "elems NilSlice = []"
| "elems (Slice xs) = xs"

subsection \<open>Requests and responses\<close>

text \<open>
  Of a request the handlers read two things: the result of decoding the body as JSON into
  a zero \<^verbatim>\<open>Task\<close> (the decoder's error message, or the task decoded, in which a field
  the body leaves out keeps its zero value), and the query parameter \<^verbatim>\<open>id\<close>, which
  \<^verbatim>\<open>Query().Get\<close> gives as the empty string when it is absent.
\<close>

record Request =
  Body :: "string + Task"
  query_id :: string

text \<open>
  The values \<^verbatim>\<open>respondWithJSON\<close> is given are a task or a slice of tasks.
  \<^verbatim>\<open>encoding/json\<close> writes a task as an object of its four fields, a nil slice as
  \<^verbatim>\<open>null\<close> and any other slice as an array, the empty one as \<^verbatim>\<open>[]\<close>. It
  fails on a task whose creation time has a year outside 0 to 9999, which
  \<^verbatim>\<open>Time.MarshalJSON\<close> refuses, and then on a slice that holds such a task.
\<close>

datatype payload = PTask Task | PTasks "Task slice"

datatype json = JNull | JObject Task | JArray "json list"

definition MarshalJSON_error :: string where
  "MarshalJSON_error =
     ''json: error calling MarshalJSON for type time.Time: '' @
     ''Time.MarshalJSON: year outside of range [0,9999]''"

fun Encode :: "payload \<Rightarrow> string + json" where
  "Encode (PTask t) =
     (if year_in_range (CreatedAt t) then Inr (JObject t) else Inl MarshalJSON_error)"
| "Encode (PTasks NilSlice) = Inr JNull"
| "Encode (PTasks (Slice ts)) =
     (if list_all (\<lambda>t. year_in_range (CreatedAt t)) ts then Inr (JArray (map JObject ts))
      else Inl MarshalJSON_error)"

datatype content = NoContent | Plain string | Json json

record Response =
  status :: nat
  contentType :: "string option"
  content :: content

abbreviation StatusOK :: nat where "StatusOK \<equiv> 200"
abbreviation StatusCreated :: nat where "StatusCreated \<equiv> 201"
abbreviation StatusNoContent :: nat where "StatusNoContent \<equiv> 204"
abbreviation StatusBadRequest :: nat where "StatusBadRequest \<equiv> 400"
abbreviation StatusNotFound :: nat where "StatusNotFound \<equiv> 404"

text \<open>\<^verbatim>\<open>http.Error\<close>: the status code and the message as a line of plain text.\<close>

definition http_Error :: "string \<Rightarrow> nat \<Rightarrow> Response" where
  "http_Error msg code =
     \<lparr>status = code, contentType = Some ''text/plain; charset=utf-8'', content = Plain msg\<rparr>"

text \<open>
  \<^verbatim>\<open>respondWithJSON\<close>. The content type and the status are sent before the encoder
  runs. The encoder writes to the response only what it has encoded in full; when it
  fails, \<^verbatim>\<open>http.Error\<close> comes after the header is out, so its status 500 and its
  content type are dropped and the text of the error is the body.
\<close>

definition respondWithJSON :: "nat \<Rightarrow> payload \<Rightarrow> Response" where
  "respondWithJSON st data =
     (case Encode data of
        Inr j \<Rightarrow> \<lparr>status = st, contentType = Some ''application/json'', content = Json j\<rparr>
      | Inl err \<Rightarrow>
          \<lparr>status = st, contentType = Some ''application/json'', content = Plain err\<rparr>)"

subsection \<open>The handlers\<close>

text \<open>
  \<^verbatim>\<open>getTasksHandler\<close>. Go leaves the order in which \<^verbatim>\<open>range\<close> visits a map
  unspecified, and it may differ from one loop to the next: the handler takes the order of
  this visit, a list of keys, as an argument, and \<open>range_order\<close> says which lists the
  runtime can choose, the enumerations of the keys present without repetition.
\<close>

definition range_order :: "(go_int \<rightharpoonup> Task) \<Rightarrow> go_int list \<Rightarrow> bool" where
  "range_order m ks \<longleftrightarrow> distinct ks \<and> set ks = dom m"

fun collect :: "(go_int \<rightharpoonup> Task) \<Rightarrow> go_int list \<Rightarrow> Task slice \<Rightarrow> Task slice" where
  "collect m [] sl = sl"
| "collect m (k # ks) sl =
     (case m k of None \<Rightarrow> collect m ks sl | Some task \<Rightarrow> collect m ks (append_slice sl task))"

definition listTasks :: "go_int list \<Rightarrow> State \<Rightarrow> Task slice" where
  "listTasks ks s = collect (tasks s) ks NilSlice"

definition getTasksHandler :: "go_int list \<Rightarrow> State \<Rightarrow> Response \<times> State" where
  "getTasksHandler ks s = (respondWithJSON StatusOK (PTasks (listTasks ks s)), s)"

text \<open>
  \<^verbatim>\<open>createTaskHandler\<close>, with the value \<^verbatim>\<open>time.Now()\<close> returns as an argument.
\<close>

definition createTaskHandler :: "Time \<Rightarrow> Request \<Rightarrow> State \<Rightarrow> Response \<times> State" where
  "createTaskHandler now r s =
     (case Body r of
        Inl err \<Rightarrow> (http_Error err StatusBadRequest, s)
      | Inr decoded \<Rightarrow>
          (let newTask = decoded\<lparr>ID := taskIDCounter s, CreatedAt := now\<rparr>
           in (respondWithJSON StatusCreated (PTask newTask),
               s\<lparr>tasks := (tasks s)(taskIDCounter s \<mapsto> newTask),
                 taskIDCounter := taskIDCounter s + 1\<rparr>)))"

text \<open>\<^verbatim>\<open>updateTaskHandler\<close>.\<close>

definition updateTaskHandler :: "Request \<Rightarrow> State \<Rightarrow> Response \<times> State" where
  "updateTaskHandler r s =
     (case Body r of
        Inl err \<Rightarrow> (http_Error err StatusBadRequest, s)
      | Inr updatedTask \<Rightarrow>
          (case tasks s (ID updatedTask) of
             None \<Rightarrow> (http_Error ''Task not found'' StatusNotFound, s)
           | Some task \<Rightarrow>
               (let task' = task\<lparr>Title := Title updatedTask, Completed := Completed updatedTask\<rparr>
                in (respondWithJSON StatusOK (PTask task'),
                    s\<lparr>tasks := (tasks s)(ID updatedTask \<mapsto> task')\<rparr>))))"

text \<open>
  \<^verbatim>\<open>fmt.Sscanf(taskID, "%d")\<close> as \<^verbatim>\<open>deleteTaskHandler\<close> calls it, with no operand
  after the format. Its two results are the number of operands it has filled and an
  error. The scanner skips the blanks that lead the input (a newline among them stops it
  with "unexpected newline"), then looks for the operand of the verb \<^verbatim>\<open>%d\<close>, finds
  none and stops with "too few operands for format '%d'", before it reads a digit: for
  every input the count is 0 and the error is not nil.
\<close>

datatype scan_error = ScanError

definition Sscanf_d :: "string \<Rightarrow> go_int \<times> scan_error option" where
  "Sscanf_d str = (0, Some ScanError)"

text \<open>
  \<^verbatim>\<open>deleteTaskHandler\<close>. The handler looks up and deletes under \<^verbatim>\<open>id\<close>, the first
  result of \<^verbatim>\<open>Sscanf\<close>.
\<close>

definition deleteTaskHandler :: "Request \<Rightarrow> State \<Rightarrow> Response \<times> State" where
  "deleteTaskHandler r s =
     (let taskID = query_id r in
      if taskID = [] then (http_Error ''ID is required'' StatusBadRequest, s)
      else
        (case Sscanf_d taskID of
           (n, Some err) \<Rightarrow> (http_Error ''Invalid task ID'' StatusBadRequest, s)
         | (n, None) \<Rightarrow>
             (case tasks s n of
                None \<Rightarrow> (http_Error ''Task not found'' StatusNotFound, s)
              | Some task \<Rightarrow>
                  (\<lparr>status = StatusNoContent, contentType = None, content = NoContent\<rparr>,
                   s\<lparr>tasks := (tasks s)(n := None)\<rparr>))))"

subsection \<open>The completion pipeline, one unit at a time\<close>

text \<open>
  The batch \<^verbatim>\<open>main\<close> hands to \<^verbatim>\<open>processTasksConcurrently\<close>, each task with the
  instant its literal reads from the clock.
\<close>

definition startup_batch :: "Time \<Rightarrow> Time \<Rightarrow> Time \<Rightarrow> Task list" where
  "startup_batch t1 t2 t3 =
     [\<lparr>ID = 1, Title = ''Task 1'', Completed = False, CreatedAt = t1\<rparr>,
      \<lparr>ID = 2, Title = ''Task 2'', Completed = False, CreatedAt = t2\<rparr>,
      \<lparr>ID = 3, Title = ''Task 3'', Completed = False, CreatedAt = t3\<rparr>]"

text \<open>
  What one unit of \<^verbatim>\<open>processTasksConcurrently\<close> sends on the channel for its copy of a
  task, and what the consumer in \<^verbatim>\<open>main\<close> does with a task it receives.
\<close>

definition processTask :: "Task \<Rightarrow> Task" where
  "processTask task = task\<lparr>Completed := True\<rparr>"

definition applyCompletion :: "Task \<Rightarrow> State \<Rightarrow> State" where
  "applyCompletion task s = s\<lparr>tasks := (tasks s)(ID task \<mapsto> task)\<rparr>"

subsection \<open>Runs of the server\<close>

text \<open>
  The events that touch the state: a request served by one of the four handlers, or a
  task the consumer takes from the channel. A run executes a list of them in order and
  returns the responses of the requests.
\<close>

datatype event =
    List "go_int list"
  | Create Time Request
  | Update Request
  | Delete Request
  | Completion Task

fun exec :: "event \<Rightarrow> State \<Rightarrow> Response option \<times> State" where
  "exec (List ks) s = (case getTasksHandler ks s of (resp, s') \<Rightarrow> (Some resp, s'))"
| "exec (Create now r) s = (case createTaskHandler now r s of (resp, s') \<Rightarrow> (Some resp, s'))"
| "exec (Update r) s = (case updateTaskHandler r s of (resp, s') \<Rightarrow> (Some resp, s'))"
| "exec (Delete r) s = (case deleteTaskHandler r s of (resp, s') \<Rightarrow> (Some resp, s'))"
| "exec (Completion task) s = (None, applyCompletion task s)"

fun run :: "event list \<Rightarrow> State \<Rightarrow> Response option list \<times> State" where
  "run [] s = ([], s)"
| "run (e # es) s =
     (case exec e s of (resp, s') \<Rightarrow> (case run es s' of (resps, s'') \<Rightarrow> (resp # resps, s'')))"

text \<open>The identifier a response to a create carries: the \<open>id\<close> of the task in a 201.\<close>

fun created_id :: "Response option \<Rightarrow> go_int list" where
  "created_id None = []"
| "created_id (Some resp) =
     (if status resp = StatusCreated
      then (case content resp of Json (JObject t) \<Rightarrow> [ID t] | _ \<Rightarrow> [])
      else [])"

definition created_ids :: "Response option list \<Rightarrow> go_int list" where
  "created_ids resps = concat (map created_id resps)"

text \<open>Identifiers in strictly increasing order, as Go compares its signed integers.\<close>

definition strictly_increasing :: "go_int list \<Rightarrow> bool" where
  "strictly_increasing ids = sorted_wrt (\<lambda>a b. sint a < sint b) ids"

text \<open>The number of creates of a run that decode their body.\<close>

fun wellformed_create :: "event \<Rightarrow> bool" where
  "wellformed_create (Create now r) = (case Body r of Inl err \<Rightarrow> False | Inr t \<Rightarrow> True)"
| "wellformed_create e = False"

definition count_creates :: "event list \<Rightarrow> nat" where
  "count_creates es = length (filter wellformed_create es)"

text \<open>
  The events whose clock, where they read it, shows a year the encoder accepts, and the
  events other than a delete and a write of the pipeline.
\<close>

fun clock_in_range :: "event \<Rightarrow> bool" where
  "clock_in_range (Create now r) = year_in_range now"
| "clock_in_range e = True"

fun no_delete_no_pipeline :: "event \<Rightarrow> bool" where
  "no_delete_no_pipeline (Delete r) = False"
| "no_delete_no_pipeline (Completion task) = False"
| "no_delete_no_pipeline e = True"

text \<open>The records a response lists in its body.\<close>

definition listed :: "Response \<Rightarrow> Task list" where
  "listed resp =
     (case content resp of
        Json (JArray js) \<Rightarrow> concat (map (\<lambda>j. case j of JObject t \<Rightarrow> [t] | _ \<Rightarrow> []) js)
      | _ \<Rightarrow> [])"

text \<open>
  Every record of the map is stored under its own identifier, and with a creation time
  the encoder accepts.
\<close>

definition keys_match :: "State \<Rightarrow> bool" where
  "keys_match s \<longleftrightarrow> (\<forall>k t. tasks s k = Some t \<longrightarrow> ID t = k)"

definition times_in_range :: "State \<Rightarrow> bool" where
  "times_in_range s \<longleftrightarrow> (\<forall>k t. tasks s k = Some t \<longrightarrow> year_in_range (CreatedAt t))"

subsection \<open>Concrete requests, states and runs\<close>

text \<open>
  A create request whose body also names an identifier and a creation time, a state that
  holds one task, requests to delete and to update the tasks 1 and 7, and two runs.
\<close>

definition request_A :: Request where
  "request_A =
     \<lparr>Body = Inr \<lparr>ID = 42, Title = ''A'', Completed = False, CreatedAt = 99\<rparr>, query_id = []\<rparr>"

definition task_A :: Task where
  "task_A = \<lparr>ID = 1, Title = ''A'', Completed = False, CreatedAt = 10\<rparr>"

definition state_A :: State where
  "state_A = \<lparr>tasks = [1 \<mapsto> task_A], taskIDCounter = 2\<rparr>"

definition delete_1 :: Request where
  "delete_1 = \<lparr>Body = Inl ''EOF'', query_id = ''1''\<rparr>"

definition delete_7 :: Request where
  "delete_7 = \<lparr>Body = Inl ''EOF'', query_id = ''7''\<rparr>"

definition update_1 :: Request where
  "update_1 =
     \<lparr>Body = Inr \<lparr>ID = 1, Title = ''A2'', Completed = True, CreatedAt = 0\<rparr>, query_id = []\<rparr>"

definition update_7 :: Request where
  "update_7 =
     \<lparr>Body = Inr \<lparr>ID = 7, Title = ''A2'', Completed = True, CreatedAt = 0\<rparr>, query_id = []\<rparr>"

definition events_A :: "event list" where
  "events_A = [Create 10 request_A, Delete delete_1, Update update_1, Create 20 request_A]"

definition events_B :: "event list" where
  "events_B = [Create 10 request_A, Update update_1, List [1], Create 15 delete_1,
     Create 20 request_A]"

section \<open>Properties\<close>

subsection \<open>The counter along a run\<close>

lemma respondWithJSON_status: "status (respondWithJSON st data) = st"
  by (simp add: respondWithJSON_def split: sum.splits)

lemma exec_counter:
  "taskIDCounter (snd (exec e s)) = taskIDCounter s + (if wellformed_create e then 1 else 0)"
  by (cases e)
     (auto simp: getTasksHandler_def createTaskHandler_def updateTaskHandler_def
        deleteTaskHandler_def Sscanf_d_def applyCompletion_def Let_def
        split: sum.splits option.splits)

lemma exec_created_id:
  "created_id (fst (exec e s)) =
     (if wellformed_create e \<and> clock_in_range e then [taskIDCounter s] else [])"
  by (cases e)
     (auto simp: getTasksHandler_def createTaskHandler_def updateTaskHandler_def
        deleteTaskHandler_def Sscanf_d_def respondWithJSON_def http_Error_def Let_def
        split: sum.splits option.splits)

lemma run_Cons_fst: "fst (run (e # es) s) = fst (exec e s) # fst (run es (snd (exec e s)))"
  by (simp split: prod.splits)

lemma run_Cons_snd: "snd (run (e # es) s) = snd (run es (snd (exec e s)))"
  by (simp split: prod.splits)

lemma created_ids_Cons:
  "created_ids (fst (run (e # es) s)) =
     created_id (fst (exec e s)) @ created_ids (fst (run es (snd (exec e s))))"
  by (simp add: run_Cons_fst created_ids_def del: run.simps)

lemma run_counter:
  "taskIDCounter (snd (run es s)) = taskIDCounter s + of_nat (count_creates es)"
proof (induction es arbitrary: s)
  case Nil
  show ?case by (simp add: count_creates_def)
next
  case (Cons e es)
  show ?case
    unfolding run_Cons_snd Cons.IH exec_counter
    by (simp add: count_creates_def)
qed

lemma assigned_Cons:
  "map (\<lambda>i. taskIDCounter s + of_nat i) [0..<count_creates (e # es)] =
     (if wellformed_create e then [taskIDCounter s] else []) @
     map (\<lambda>i. taskIDCounter (snd (exec e s)) + of_nat i) [0..<count_creates es]"
  by (simp add: exec_counter count_creates_def map_upt_Suc add.assoc del: upt_Suc)

lemma run_created_ids_subseq:
  "subseq (created_ids (fst (run es s)))
     (map (\<lambda>i. taskIDCounter s + of_nat i) [0..<count_creates es])"
proof (induction es arbitrary: s)
  case Nil
  show ?case by (simp add: count_creates_def created_ids_def)
next
  case (Cons e es)
  have "subseq (created_id (fst (exec e s))) (if wellformed_create e then [taskIDCounter s] else [])"
    by (simp add: exec_created_id)
  then show ?case
    unfolding created_ids_Cons assigned_Cons
    using Cons.IH [of "snd (exec e s)"] by (rule list_emb_append_mono)
qed

lemma run_created_ids:
  assumes "list_all clock_in_range es"
  shows "created_ids (fst (run es s)) =
           map (\<lambda>i. taskIDCounter s + of_nat i) [0..<count_creates es]"
  using assms
proof (induction es arbitrary: s)
  case Nil
  show ?case by (simp add: count_creates_def created_ids_def)
next
  case (Cons e es)
  then show ?case
    unfolding created_ids_Cons assigned_Cons by (simp add: exec_created_id)
qed

lemma run_ids_map_independent:
  "taskIDCounter s = taskIDCounter s' \<Longrightarrow>
     created_ids (fst (run es s)) = created_ids (fst (run es s'))"
proof (induction es arbitrary: s s')
  case Nil
  show ?case by (simp add: created_ids_def)
next
  case (Cons e es)
  have "taskIDCounter (snd (exec e s)) = taskIDCounter (snd (exec e s'))"
    by (simp add: exec_counter Cons.prems)
  from Cons.IH [OF this] show ?case
    unfolding created_ids_Cons by (simp add: exec_created_id Cons.prems)
qed

subsection \<open>Identifiers counted up from the counter\<close>

lemma sint_counter_plus:
  fixes c :: go_int
  assumes "sint c + int i < 2 ^ 63"
  shows "sint (c + of_nat i) = sint c + int i"
proof -
  have lo: "- (2 ^ 63) \<le> sint c + int i"
    using sint_ge [of c] by simp
  have "c + of_nat i = word_of_int (sint c + int i)"
    by simp
  then have "sint (c + of_nat i) = signed_take_bit 63 (sint c + int i)"
    by (simp only: sint_sbintrunc') simp
  also have "\<dots> = sint c + int i"
    using lo assms by (simp add: signed_take_bit_int_eq_self)
  finally show ?thesis .
qed

lemma increasing_from_counter:
  fixes c :: go_int
  assumes "sint c + int k \<le> 2 ^ 63"
  shows "strictly_increasing (map (\<lambda>i. c + of_nat i) [0..<k])"
  unfolding strictly_increasing_def sorted_wrt_iff_nth_less
proof (intro allI impI)
  fix i j
  assume "i < j" and "j < length (map (\<lambda>i. c + of_nat i) [0..<k])"
  then have ij: "i < j" "j < k" by simp_all
  then have "sint (c + of_nat i) = sint c + int i" "sint (c + of_nat j) = sint c + int j"
    using assms by (simp_all add: sint_counter_plus)
  with ij show "sint (map (\<lambda>i. c + of_nat i) [0..<k] ! i)
      < sint (map (\<lambda>i. c + of_nat i) [0..<k] ! j)"
    by simp
qed

lemma strictly_increasing_distinct: "strictly_increasing ids \<Longrightarrow> distinct ids"
  unfolding strictly_increasing_def
  by (induction ids) auto

lemma subseq_strictly_increasing:
  "subseq xs ys \<Longrightarrow> strictly_increasing ys \<Longrightarrow> strictly_increasing xs"
  unfolding strictly_increasing_def
proof (induction rule: list_emb.induct)
  case (list_emb_Cons2 x y xs ys)
  then have "set xs \<subseteq> set ys" by (auto dest: list_emb_set)
  with list_emb_Cons2 show ?case by auto
qed auto

lemma of_nat_inj_on_64:
  assumes "n \<le> 2 ^ 64"
  shows "inj_on (\<lambda>i. (c :: go_int) + of_nat i) {0..<n}"
proof (rule inj_onI)
  fix i j
  assume "i \<in> {0..<n}" "j \<in> {0..<n}" and eq: "c + of_nat i = c + of_nat j"
  then have "i < 2 ^ 64" "j < 2 ^ 64" using assms by simp_all
  moreover from eq have "take_bit 64 i = take_bit 64 j"
    by (simp add: word_of_nat_eq_iff)
  ultimately show "i = j"
    by (simp add: take_bit_nat_eq_self)
qed

lemma distinct_from_counter:
  "n \<le> 2 ^ 64 \<Longrightarrow> distinct (map (\<lambda>i. (c :: go_int) + of_nat i) [0..<n])"
  by (simp add: distinct_map of_nat_inj_on_64)

subsection \<open>The map only grows\<close>

lemma exec_dom_grows: "dom (tasks s) \<subseteq> dom (tasks (snd (exec e s)))"
  by (cases e)
     (auto simp: getTasksHandler_def createTaskHandler_def updateTaskHandler_def
        deleteTaskHandler_def Sscanf_d_def applyCompletion_def Let_def
        split: sum.splits option.splits)

lemma exec_dom_create:
  "wellformed_create e \<Longrightarrow> taskIDCounter s \<in> dom (tasks (snd (exec e s)))"
  by (cases e) (auto simp: createTaskHandler_def Let_def split: sum.splits)

lemma run_dom_grows: "dom (tasks s) \<subseteq> dom (tasks (snd (run es s)))"
proof (induction es arbitrary: s)
  case Nil
  show ?case by simp
next
  case (Cons e es)
  show ?case
    unfolding run_Cons_snd
    using exec_dom_grows [of s e] Cons.IH [of "snd (exec e s)"] by blast
qed

lemma run_dom_assigned:
  "set (map (\<lambda>i. taskIDCounter s + of_nat i) [0..<count_creates es])
     \<subseteq> dom (tasks (snd (run es s)))"
proof (induction es arbitrary: s)
  case Nil
  show ?case by (simp add: count_creates_def)
next
  case (Cons e es)
  have "wellformed_create e \<Longrightarrow> taskIDCounter s \<in> dom (tasks (snd (run es (snd (exec e s)))))"
    using exec_dom_create [of e s] run_dom_grows [of "snd (exec e s)" es] by blast
  then show ?case
    unfolding run_Cons_snd assigned_Cons
    using Cons.IH [of "snd (exec e s)"] by auto
qed

lemma count_creates_bound:
  assumes "card (dom (tasks (snd (run es s)))) < 2 ^ 63"
  shows "count_creates es < 2 ^ 63"
proof (rule ccontr)
  let ?f = "\<lambda>i. taskIDCounter s + of_nat i"
  assume "\<not> count_creates es < 2 ^ 63"
  then have "{0..<2 ^ 63} \<subseteq> {0..<count_creates es}" by simp
  then have "?f ` {0..<2 ^ 63} \<subseteq> set (map ?f [0..<count_creates es])"
    by (simp add: image_mono)
  with run_dom_assigned [of s es] have "?f ` {0..<2 ^ 63} \<subseteq> dom (tasks (snd (run es s)))"
    by blast
  then have "card (?f ` {0..<2 ^ 63}) \<le> card (dom (tasks (snd (run es s))))"
    by (intro card_mono) simp_all
  moreover have "card (?f ` {0..<2 ^ 63}) = 2 ^ 63"
    using of_nat_inj_on_64 [of "2 ^ 63" "taskIDCounter s"] by (simp add: card_image)
  ultimately show False using assms by simp
qed

subsection \<open>What a listing holds\<close>

lemma collect_elems:
  "set ks \<subseteq> dom m \<Longrightarrow> elems (collect m ks sl) = elems sl @ map (\<lambda>k. the (m k)) ks"
proof (induction ks arbitrary: sl)
  case Nil
  show ?case by simp
next
  case (Cons k ks)
  then obtain t where t: "m k = Some t" by auto
  have "elems (append_slice sl t) = elems sl @ [t]" by (cases sl) simp_all
  with Cons t show ?case by simp
qed

lemma listTasks_elems:
  "range_order (tasks s) ks \<Longrightarrow> elems (listTasks ks s) = map (\<lambda>k. the (tasks s k)) ks"
  by (simp add: listTasks_def range_order_def collect_elems)

lemma collect_not_nil: "collect m ks (Slice xs) \<noteq> NilSlice"
  by (induction ks arbitrary: xs) (auto split: option.splits)

lemma listTasks_nil:
  assumes "range_order (tasks s) ks"
  shows "listTasks ks s = NilSlice \<longleftrightarrow> ks = []"
proof (cases ks)
  case Nil
  then show ?thesis by (simp add: listTasks_def)
next
  case (Cons k ks')
  with assms obtain t where "tasks s k = Some t"
    by (auto simp: range_order_def)
  with Cons show ?thesis
    by (simp add: listTasks_def collect_not_nil)
qed

lemma range_order_empty: "range_order Map.empty ks \<longleftrightarrow> ks = []"
  by (auto simp: range_order_def)

lemma listed_json:
  "listed \<lparr>status = st, contentType = ct, content = Json (JArray (map JObject ts))\<rparr> = ts"
  by (induction ts) (simp_all add: listed_def)

lemma getTasksHandler_response:
  assumes "times_in_range s" and "range_order (tasks s) ks"
  shows "fst (getTasksHandler ks s) =
           \<lparr>status = StatusOK, contentType = Some ''application/json'',
            content = Json (if ks = [] then JNull
                            else JArray (map JObject (map (\<lambda>k. the (tasks s k)) ks)))\<rparr>"
proof (cases "listTasks ks s")
  case NilSlice
  moreover from NilSlice have "ks = []"
    by (simp add: listTasks_nil [OF assms(2)])
  ultimately show ?thesis
    by (simp add: getTasksHandler_def respondWithJSON_def)
next
  case (Slice ts)
  with assms(2) have ks: "ks \<noteq> []" and ts: "ts = map (\<lambda>k. the (tasks s k)) ks"
    using listTasks_nil [OF assms(2)] listTasks_elems [OF assms(2)] by auto
  have "year_in_range (CreatedAt (the (tasks s k)))" if "k \<in> set ks" for k
  proof -
    from that assms(2) obtain t where "tasks s k = Some t" by (auto simp: range_order_def)
    with assms(1) show ?thesis by (auto simp: times_in_range_def)
  qed
  then have "list_all (\<lambda>t. year_in_range (CreatedAt t)) ts"
    by (simp add: ts list_all_iff)
  with Slice ks ts show ?thesis
    by (simp add: getTasksHandler_def respondWithJSON_def)
qed

lemma exec_plain_tasks:
  assumes "no_delete_no_pipeline e"
  shows "dom (tasks (snd (exec e s))) =
           (if wellformed_create e then insert (taskIDCounter s) (dom (tasks s))
            else dom (tasks s))"
    and "keys_match s \<Longrightarrow> keys_match (snd (exec e s))"
    and "clock_in_range e \<Longrightarrow> times_in_range s \<Longrightarrow> times_in_range (snd (exec e s))"
  using assms
  by (cases e;
      auto simp: getTasksHandler_def createTaskHandler_def updateTaskHandler_def Let_def
        keys_match_def times_in_range_def split: sum.splits option.splits)+

lemma run_plain_tasks:
  assumes "list_all no_delete_no_pipeline es" and "list_all clock_in_range es"
  shows "dom (tasks (snd (run es s))) =
           dom (tasks s) \<union> set (map (\<lambda>i. taskIDCounter s + of_nat i) [0..<count_creates es])
         \<and> (keys_match s \<longrightarrow> keys_match (snd (run es s)))
         \<and> (times_in_range s \<longrightarrow> times_in_range (snd (run es s)))"
  using assms
proof (induction es arbitrary: s)
  case Nil
  show ?case by (simp add: count_creates_def)
next
  case (Cons e es)
  then have e: "no_delete_no_pipeline e" "clock_in_range e"
    and rest: "list_all no_delete_no_pipeline es" "list_all clock_in_range es"
    by simp_all
  show ?case
    unfolding run_Cons_snd assigned_Cons
    using Cons.IH [OF rest, of "snd (exec e s)"] exec_plain_tasks [OF e(1), of s] e(2)
    by auto
qed

subsection \<open>The delete handler\<close>

lemma deleteTaskHandler_rejects:
  "deleteTaskHandler r s =
     (http_Error (if query_id r = [] then ''ID is required'' else ''Invalid task ID'')
        StatusBadRequest, s)"
  by (simp add: deleteTaskHandler_def Sscanf_d_def)

subsection \<open>The encoder's error\<close>

lemma respondWithJSON_encoder_error:
  "\<not> year_in_range (CreatedAt t) \<Longrightarrow>
     respondWithJSON st (PTask t) =
       \<lparr>status = st, contentType = Some ''application/json'', content = Plain MarshalJSON_error\<rparr>"
  by (simp add: respondWithJSON_def)

subsection \<open>The pipeline's message and the consumer's write\<close>

lemma processTask_fields:
  "Completed (processTask task) = True \<and> ID (processTask task) = ID task \<and>
   Title (processTask task) = Title task \<and> CreatedAt (processTask task) = CreatedAt task"
  by (simp add: processTask_def)

lemma applyCompletion_upsert:
  "tasks (applyCompletion task s) (ID task) = Some task \<and>
   (\<forall>k. k \<noteq> ID task \<longrightarrow> tasks (applyCompletion task s) k = tasks s k) \<and>
   taskIDCounter (applyCompletion task s) = taskIDCounter s"
  by (simp add: applyCompletion_def)

section \<open>The claims\<close>

subsection \<open>Identifiers of created tasks\<close>

text \<open>
  Claim C1. In every run of the server from its initial state, whatever creates, updates,
  deletes, listings and writes of the pipeline it is made of, the identifiers that the
  creates return are strictly increasing and pairwise distinct, so none is assigned
  twice. The run is one a Go process can make: the map it leaves has a length that is an
  \<^verbatim>\<open>int\<close>, fewer than \<open>2^63\<close> records; no handler ever removes a record, so such a
  run has fewer than \<open>2^63\<close> creates and the counter does not wrap. Nor do the
  identifiers depend on what the map holds: from any state, a run returns the same
  identifiers when the map is replaced by any other, one with records removed included.
\<close>

theorem created_ids_increasing:
  assumes "card (dom (tasks (snd (run es initial_State)))) < 2 ^ 63"
  shows "strictly_increasing (created_ids (fst (run es initial_State))) \<and>
         distinct (created_ids (fst (run es initial_State))) \<and>
         created_ids (fst (run es' (s\<lparr>tasks := m\<rparr>))) = created_ids (fst (run es' s))"
proof -
  have "count_creates es < 2 ^ 63"
    using assms by (rule count_creates_bound)
  then have "sint (taskIDCounter initial_State) + int (count_creates es) \<le> 2 ^ 63"
    by (simp add: initial_State_def)
  then have "strictly_increasing
      (map (\<lambda>i. taskIDCounter initial_State + of_nat i) [0..<count_creates es])"
    by (rule increasing_from_counter)
  with run_created_ids_subseq have "strictly_increasing (created_ids (fst (run es initial_State)))"
    by (rule subseq_strictly_increasing)
  moreover have "created_ids (fst (run es' (s\<lparr>tasks := m\<rparr>))) = created_ids (fst (run es' s))"
    by (rule run_ids_map_independent) simp
  ultimately show ?thesis
    by (simp add: strictly_increasing_distinct)
qed

theorem created_ids_increasing_witness:
  "card (dom (tasks (snd (run events_A initial_State)))) < 2 ^ 63 \<and>
   created_ids (fst (run events_A initial_State)) = [1, 2] \<and>
   strictly_increasing (created_ids (fst (run events_A initial_State))) \<and>
   distinct (created_ids (fst (run events_A initial_State))) \<and>
   created_ids (fst (run [Create 30 request_A] (state_A\<lparr>tasks := Map.empty\<rparr>))) = [2] \<and>
   created_ids (fst (run [Create 30 request_A] (state_A\<lparr>tasks := Map.empty\<rparr>))) =
     created_ids (fst (run [Create 30 request_A] state_A))"
proof -
  have h: "card (dom (tasks (snd (run events_A initial_State)))) < 2 ^ 63"
    by (simp add: events_A_def initial_State_def request_A_def delete_1_def update_1_def
        createTaskHandler_def deleteTaskHandler_def updateTaskHandler_def Sscanf_d_def Let_def)
  have a: "created_ids (fst (run events_A initial_State)) = [1, 2]"
    by (simp add: events_A_def initial_State_def created_ids_def request_A_def delete_1_def
        update_1_def createTaskHandler_def deleteTaskHandler_def updateTaskHandler_def
        Sscanf_d_def respondWithJSON_def http_Error_def year_in_range_def Let_def)
  have b: "created_ids (fst (run [Create 30 request_A] (state_A\<lparr>tasks := Map.empty\<rparr>))) = [2]"
    by (simp add: state_A_def created_ids_def request_A_def createTaskHandler_def
        respondWithJSON_def year_in_range_def Let_def)
  from created_ids_increasing [OF h, where es' = "[Create 30 request_A]" and s = state_A
      and m = Map.empty] h a b
  show ?thesis by simp
qed

subsection \<open>Delete\<close>

text \<open>
  Claim C2 says that delete removes the record of an identifier that is present and fails
  with NotFound for one that is absent. The handler does neither: in the state that holds
  task 1, the request to delete 1 is answered 400 "Invalid task ID", the state is the
  same and a listing still returns the task; the request to delete the absent 7 is
  answered 400 as well, not 404.
\<close>

theorem delete_present_id_keeps_record:
  "tasks state_A 1 = Some task_A \<and>
   deleteTaskHandler delete_1 state_A =
     (http_Error ''Invalid task ID'' StatusBadRequest, state_A) \<and>
   elems (listTasks [1] (snd (deleteTaskHandler delete_1 state_A))) = [task_A] \<and>
   tasks state_A 7 = None \<and>
   deleteTaskHandler delete_7 state_A =
     (http_Error ''Invalid task ID'' StatusBadRequest, state_A)"
  by (simp add: deleteTaskHandler_rejects delete_1_def delete_7_def)
     (simp add: state_A_def listTasks_def)

text \<open>
  Claim C3 says that the delete endpoint answers 204 when it deletes, 400 when the
  parameter is missing or not an integer, and 404 when no task has the identifier. The
  handler answers 400 to every request: to the one for the task 1 that is present, where
  the claim says 204, and to the one for the absent 7, where the claim says 404.
\<close>

theorem delete_status_always_400:
  "tasks state_A 1 \<noteq> None \<and>
   status (fst (deleteTaskHandler delete_1 state_A)) = StatusBadRequest \<and>
   tasks state_A 7 = None \<and>
   status (fst (deleteTaskHandler delete_7 state_A)) = StatusBadRequest"
  by (simp add: deleteTaskHandler_rejects http_Error_def state_A_def)

subsection \<open>Update\<close>

text \<open>
  Claim C4. An update whose body names an identifier that the map does not hold is
  answered 404 "Task not found" and leaves the state, map and counter, as it was.
\<close>

theorem update_absent_NotFound:
  assumes "Body r = Inr u" and "tasks s (ID u) = None"
  shows "updateTaskHandler r s = (http_Error ''Task not found'' StatusNotFound, s) \<and>
         status (fst (updateTaskHandler r s)) = StatusNotFound \<and>
         tasks (snd (updateTaskHandler r s)) = tasks s \<and>
         taskIDCounter (snd (updateTaskHandler r s)) = taskIDCounter s"
  using assms by (simp add: updateTaskHandler_def http_Error_def)

theorem update_absent_NotFound_witness:
  "Body update_7 = Inr \<lparr>ID = 7, Title = ''A2'', Completed = True, CreatedAt = 0\<rparr> \<and>
   tasks state_A 7 = None \<and>
   updateTaskHandler update_7 state_A = (http_Error ''Task not found'' StatusNotFound, state_A)"
proof -
  have a: "Body update_7 = Inr \<lparr>ID = 7, Title = ''A2'', Completed = True, CreatedAt = 0\<rparr>"
    by (simp add: update_7_def)
  have b: "tasks state_A (ID \<lparr>ID = 7, Title = ''A2'', Completed = True, CreatedAt = 0\<rparr>) = None"
    by (simp add: state_A_def)
  from update_absent_NotFound [OF a b] a b show ?thesis by simp
qed

text \<open>
  Claim C5. An update whose body names an identifier that the map holds stores, under that
  identifier, the record with the title and the completion flag of the body and with the
  \<open>id\<close> and the creation time of the record stored before; it leaves every other entry
  of the map and the counter as they were, and its response is 200 with that record as
  JSON body. The record stored before has a creation time that the encoder accepts, as
  every reading of the clock has.
\<close>

theorem update_present_overwrites:
  assumes "Body r = Inr u" and "tasks s (ID u) = Some t" and "year_in_range (CreatedAt t)"
  shows "fst (updateTaskHandler r s) =
           \<lparr>status = StatusOK, contentType = Some ''application/json'',
            content = Json (JObject \<lparr>ID = ID t, Title = Title u, Completed = Completed u,
              CreatedAt = CreatedAt t\<rparr>)\<rparr> \<and>
         tasks (snd (updateTaskHandler r s)) (ID u) =
           Some \<lparr>ID = ID t, Title = Title u, Completed = Completed u, CreatedAt = CreatedAt t\<rparr> \<and>
         (\<forall>k. k \<noteq> ID u \<longrightarrow> tasks (snd (updateTaskHandler r s)) k = tasks s k) \<and>
         taskIDCounter (snd (updateTaskHandler r s)) = taskIDCounter s"
  using assms by (cases t) (simp add: updateTaskHandler_def respondWithJSON_def Let_def)

theorem update_present_overwrites_witness:
  "Body update_1 = Inr \<lparr>ID = 1, Title = ''A2'', Completed = True, CreatedAt = 0\<rparr> \<and>
   tasks state_A 1 = Some task_A \<and> year_in_range (CreatedAt task_A) \<and>
   fst (updateTaskHandler update_1 state_A) =
     \<lparr>status = StatusOK, contentType = Some ''application/json'',
      content = Json (JObject \<lparr>ID = 1, Title = ''A2'', Completed = True, CreatedAt = 10\<rparr>)\<rparr> \<and>
   tasks (snd (updateTaskHandler update_1 state_A)) 1 =
     Some \<lparr>ID = 1, Title = ''A2'', Completed = True, CreatedAt = 10\<rparr>"
proof -
  have a: "Body update_1 = Inr \<lparr>ID = 1, Title = ''A2'', Completed = True, CreatedAt = 0\<rparr>"
    by (simp add: update_1_def)
  have b: "tasks state_A (ID \<lparr>ID = 1, Title = ''A2'', Completed = True, CreatedAt = 0\<rparr>)
      = Some task_A"
    by (simp add: state_A_def)
  have c: "year_in_range (CreatedAt task_A)"
    by (simp add: task_A_def year_in_range_def)
  from update_present_overwrites [OF a b c] a b c show ?thesis
    by (simp add: task_A_def)
qed

subsection \<open>Create\<close>

text \<open>
  Claim C6. A create whose body decodes, at a reading of the clock that the encoder
  accepts, stores the record that has the counter's value as \<open>id\<close>, the title and the
  completion flag of the body and the current time as creation time, whatever \<open>id\<close>
  and creation time the body gives; the other entries of the map are as before, the
  counter is one more, and the response is 201 with exactly the stored record as JSON
  body.
\<close>

theorem create_stores_and_returns:
  assumes "Body r = Inr d" and "year_in_range now"
  shows "fst (createTaskHandler now r s) =
           \<lparr>status = StatusCreated, contentType = Some ''application/json'',
            content = Json (JObject \<lparr>ID = taskIDCounter s, Title = Title d,
              Completed = Completed d, CreatedAt = now\<rparr>)\<rparr> \<and>
         tasks (snd (createTaskHandler now r s)) (taskIDCounter s) =
           Some \<lparr>ID = taskIDCounter s, Title = Title d, Completed = Completed d,
             CreatedAt = now\<rparr> \<and>
         (\<forall>k. k \<noteq> taskIDCounter s \<longrightarrow> tasks (snd (createTaskHandler now r s)) k = tasks s k) \<and>
         taskIDCounter (snd (createTaskHandler now r s)) = taskIDCounter s + 1"
  using assms by (cases d) (simp add: createTaskHandler_def respondWithJSON_def Let_def)

theorem create_stores_and_returns_witness:
  "Body request_A = Inr \<lparr>ID = 42, Title = ''A'', Completed = False, CreatedAt = 99\<rparr> \<and>
   year_in_range 10 \<and>
   fst (createTaskHandler 10 request_A state_A) =
     \<lparr>status = StatusCreated, contentType = Some ''application/json'',
      content = Json (JObject \<lparr>ID = 2, Title = ''A'', Completed = False, CreatedAt = 10\<rparr>)\<rparr> \<and>
   tasks (snd (createTaskHandler 10 request_A state_A)) 2 =
     Some \<lparr>ID = 2, Title = ''A'', Completed = False, CreatedAt = 10\<rparr> \<and>
   taskIDCounter (snd (createTaskHandler 10 request_A state_A)) = 3"
proof -
  have a: "Body request_A = Inr \<lparr>ID = 42, Title = ''A'', Completed = False, CreatedAt = 99\<rparr>"
    by (simp add: request_A_def)
  have b: "year_in_range 10"
    by (simp add: year_in_range_def)
  from create_stores_and_returns [OF a b, of state_A] a b show ?thesis
    by (simp add: state_A_def)
qed

subsection \<open>Listing\<close>

text \<open>
  Claim C7. Take a run of the server from its initial state with no delete and no write
  of the pipeline, made of creates, updates and listings in any order, refused creates
  among them, with N creates that decode their body, every create at a reading of the
  clock that the encoder accepts. The map it leaves has a length that is an
  \<^verbatim>\<open>int\<close>. Then a listing, in whatever order the runtime visits the map, is answered
  200 with a body that lists exactly N records (the JSON \<open>null\<close> when N is 0), and the
  set of their identifiers is the set of the identifiers that the N creates returned.
\<close>

theorem list_after_creates:
  assumes "list_all no_delete_no_pipeline es" and "list_all clock_in_range es"
    and "s = snd (run es initial_State)"
    and "card (dom (tasks s)) < 2 ^ 63"
    and "range_order (tasks s) ks"
    and "resp = fst (getTasksHandler ks s)"
  shows "status resp = StatusOK \<and>
         content resp =
           Json (if count_creates es = 0 then JNull else JArray (map JObject (listed resp))) \<and>
         length (listed resp) = count_creates es \<and>
         set (map ID (listed resp)) = set (created_ids (fst (run es initial_State))) \<and>
         length (created_ids (fst (run es initial_State))) = count_creates es"
proof -
  let ?n = "count_creates es"
  let ?ids = "created_ids (fst (run es initial_State))"
  have ids: "?ids = map (\<lambda>i. taskIDCounter initial_State + of_nat i) [0..<?n]"
    using assms(2) by (rule run_created_ids)
  have "keys_match initial_State" "times_in_range initial_State"
    by (simp_all add: keys_match_def times_in_range_def initial_State_def)
  with run_plain_tasks [OF assms(1,2), of initial_State]
  have dom: "dom (tasks s) = set ?ids" and km: "keys_match s" and tr: "times_in_range s"
    by (simp_all add: assms(3) ids) (simp add: initial_State_def)
  have "?n < 2 ^ 63"
    using assms(4) unfolding assms(3) by (rule count_creates_bound)
  then have dist: "distinct ?ids"
    unfolding ids by (intro distinct_from_counter) simp
  have len: "length ?ids = ?n"
    unfolding ids by simp
  from assms(5) have ks: "distinct ks" "set ks = set ?ids"
    by (simp_all add: range_order_def dom)
  have "length ks = card (set ks)" using ks(1) by (simp add: distinct_card)
  also have "\<dots> = length ?ids" using dist ks(2) by (simp add: distinct_card)
  finally have lks: "length ks = ?n" using len by simp
  have "ID (the (tasks s k)) = k" if "k \<in> set ks" for k
  proof -
    from that have "k \<in> dom (tasks s)" using ks(2) dom by simp
    then show ?thesis using km by (auto simp: keys_match_def)
  qed
  then have idks: "map ID (map (\<lambda>k. the (tasks s k)) ks) = ks"
    by (simp add: map_idI)
  have resp: "resp = \<lparr>status = StatusOK, contentType = Some ''application/json'',
      content = Json (if ks = [] then JNull
                      else JArray (map JObject (map (\<lambda>k. the (tasks s k)) ks)))\<rparr>"
    unfolding assms(6) using tr assms(5) by (rule getTasksHandler_response)
  have listed: "listed resp = map (\<lambda>k. the (tasks s k)) ks"
  proof (cases "ks = []")
    case True
    then show ?thesis by (simp add: resp listed_def)
  next
    case False
    then show ?thesis unfolding resp by (simp only: if_False listed_json)
  qed
  have empty: "ks = [] \<longleftrightarrow> ?n = 0"
    using lks by auto
  have c1: "status resp = StatusOK"
    by (simp add: resp)
  have "content resp = Json (if ks = [] then JNull
      else JArray (map JObject (map (\<lambda>k. the (tasks s k)) ks)))"
    by (simp add: resp)
  then have c2: "content resp =
      Json (if ?n = 0 then JNull else JArray (map JObject (listed resp)))"
    unfolding listed empty .
  have c3: "length (listed resp) = ?n"
    unfolding listed using lks by simp
  have c4: "set (map ID (listed resp)) = set ?ids"
    unfolding listed idks using ks(2) .
  from c1 c2 c3 c4 len show ?thesis
    by blast
qed

theorem list_after_creates_witness:
  "list_all no_delete_no_pipeline events_B \<and> list_all clock_in_range events_B \<and>
   card (dom (tasks (snd (run events_B initial_State)))) < 2 ^ 63 \<and>
   range_order (tasks (snd (run events_B initial_State))) [2, 1] \<and>
   count_creates events_B = 2 \<and>
   created_ids (fst (run events_B initial_State)) = [1, 2] \<and>
   fst (getTasksHandler [2, 1] (snd (run events_B initial_State))) =
     \<lparr>status = StatusOK, contentType = Some ''application/json'',
      content = Json (JArray
        [JObject \<lparr>ID = 2, Title = ''A'', Completed = False, CreatedAt = 20\<rparr>,
         JObject \<lparr>ID = 1, Title = ''A2'', Completed = True, CreatedAt = 10\<rparr>])\<rparr> \<and>
   length (listed (fst (getTasksHandler [2, 1] (snd (run events_B initial_State))))) = 2 \<and>
   set (map ID (listed (fst (getTasksHandler [2, 1] (snd (run events_B initial_State)))))) =
     {1, 2}"
proof -
  have s: "snd (run events_B initial_State) =
      \<lparr>tasks = [1 \<mapsto> \<lparr>ID = 1, Title = ''A2'', Completed = True, CreatedAt = 10\<rparr>,
                2 \<mapsto> \<lparr>ID = 2, Title = ''A'', Completed = False, CreatedAt = 20\<rparr>],
       taskIDCounter = 3\<rparr>"
    by (simp add: events_B_def initial_State_def request_A_def update_1_def delete_1_def
        createTaskHandler_def updateTaskHandler_def getTasksHandler_def Let_def)
  have a: "list_all no_delete_no_pipeline events_B"
    by (simp add: events_B_def)
  have b: "list_all clock_in_range events_B"
    by (simp add: events_B_def year_in_range_def)
  have c: "card (dom (tasks (snd (run events_B initial_State)))) < 2 ^ 63"
    by (simp add: s)
  have d: "range_order (tasks (snd (run events_B initial_State))) [2, 1]"
    by (auto simp: s range_order_def)
  have n: "count_creates events_B = 2"
    by (simp add: events_B_def count_creates_def request_A_def delete_1_def)
  have ids: "created_ids (fst (run events_B initial_State)) = [1, 2]"
    by (simp add: run_created_ids [OF b] n initial_State_def upt_rec)
  have r: "fst (getTasksHandler [2, 1] (snd (run events_B initial_State))) =
     \<lparr>status = StatusOK, contentType = Some ''application/json'',
      content = Json (JArray
        [JObject \<lparr>ID = 2, Title = ''A'', Completed = False, CreatedAt = 20\<rparr>,
         JObject \<lparr>ID = 1, Title = ''A2'', Completed = True, CreatedAt = 10\<rparr>])\<rparr>"
    by (simp add: s getTasksHandler_def listTasks_def respondWithJSON_def year_in_range_def)
  from list_after_creates [OF a b refl c d refl] a b c d n ids r show ?thesis
    by simp
qed

text \<open>
  Claim C10. When the map holds no task, the loop of the listing appends nothing, the
  slice it leaves is nil, and the response is 200 with the JSON value \<open>null\<close>, which is
  not the empty array.
\<close>

theorem list_empty_null:
  assumes "tasks s = Map.empty" and "range_order (tasks s) ks"
  shows "listTasks ks s = NilSlice \<and>
         getTasksHandler ks s =
           (\<lparr>status = StatusOK, contentType = Some ''application/json'',
              content = Json JNull\<rparr>, s) \<and>
         content (fst (getTasksHandler ks s)) \<noteq> Json (JArray [])"
  using assms
  by (simp add: range_order_empty getTasksHandler_def listTasks_def respondWithJSON_def)

theorem list_empty_null_witness:
  "tasks initial_State = Map.empty \<and> range_order (tasks initial_State) [] \<and>
   getTasksHandler [] initial_State =
     (\<lparr>status = StatusOK, contentType = Some ''application/json'', content = Json JNull\<rparr>,
      initial_State)"
proof -
  have a: "tasks initial_State = Map.empty"
    by (simp add: initial_State_def)
  have b: "range_order (tasks initial_State) []"
    by (simp add: initial_State_def range_order_def)
  from list_empty_null [OF a b] a b show ?thesis by simp
qed

subsection \<open>The startup batch and the counter\<close>

text \<open>
  Claim C9. The batch of the pipeline has the identifiers 1, 2 and 3 and the counter
  starts at 1. So in a state reached from the initial one by a run with fewer than three
  creates, the identifier the next create assigns is the identifier of the batch's task at
  that position, and of the two writes under it the later one stays: the message of the
  pipeline if the consumer applies it after the create, the record of the create, answered
  201 as ever, if the create comes after the consumer.
\<close>

theorem startup_ids_collide:
  assumes "count_creates es < 3"
    and "s = snd (run es initial_State)"
    and "task = processTask (startup_batch t1 t2 t3 ! count_creates es)"
    and "Body r = Inr d"
  shows "map ID (startup_batch t1 t2 t3) = [1, 2, 3] \<and>
         taskIDCounter initial_State = 1 \<and>
         ID task = taskIDCounter s \<and>
         tasks (applyCompletion task (snd (createTaskHandler now r s))) (ID task) = Some task \<and>
         tasks (snd (createTaskHandler now r (applyCompletion task s))) (ID task) =
           Some \<lparr>ID = ID task, Title = Title d, Completed = Completed d, CreatedAt = now\<rparr> \<and>
         status (fst (createTaskHandler now r (applyCompletion task s))) = StatusCreated"
proof -
  have c: "taskIDCounter s = 1 + of_nat (count_creates es)"
    unfolding assms(2) run_counter by (simp add: initial_State_def)
  from assms(1) consider "count_creates es = 0" | "count_creates es = 1" | "count_creates es = 2"
    by linarith
  then have id: "ID task = taskIDCounter s"
    by cases (simp_all add: c assms(3) processTask_def startup_batch_def)
  show ?thesis
    using assms(4) id
    by (cases d) (simp add: startup_batch_def initial_State_def applyCompletion_def
        createTaskHandler_def respondWithJSON_status Let_def)
qed

theorem startup_ids_collide_witness:
  "count_creates [Create 10 request_A] < 3 \<and>
   Body request_A = Inr \<lparr>ID = 42, Title = ''A'', Completed = False, CreatedAt = 99\<rparr> \<and>
   processTask (startup_batch 1 2 3 ! count_creates [Create 10 request_A]) =
     \<lparr>ID = 2, Title = ''Task 2'', Completed = True, CreatedAt = 2\<rparr> \<and>
   taskIDCounter (snd (run [Create 10 request_A] initial_State)) = 2 \<and>
   tasks (applyCompletion \<lparr>ID = 2, Title = ''Task 2'', Completed = True, CreatedAt = 2\<rparr>
      (snd (createTaskHandler 20 request_A (snd (run [Create 10 request_A] initial_State))))) 2 =
     Some \<lparr>ID = 2, Title = ''Task 2'', Completed = True, CreatedAt = 2\<rparr> \<and>
   tasks (snd (createTaskHandler 20 request_A
      (applyCompletion \<lparr>ID = 2, Title = ''Task 2'', Completed = True, CreatedAt = 2\<rparr>
         (snd (run [Create 10 request_A] initial_State))))) 2 =
     Some \<lparr>ID = 2, Title = ''A'', Completed = False, CreatedAt = 20\<rparr>"
proof -
  have a: "count_creates [Create 10 request_A] < 3"
    by (simp add: count_creates_def)
  have b: "Body request_A = Inr \<lparr>ID = 42, Title = ''A'', Completed = False, CreatedAt = 99\<rparr>"
    by (simp add: request_A_def)
  have c: "processTask (startup_batch 1 2 3 ! count_creates [Create 10 request_A]) =
      \<lparr>ID = 2, Title = ''Task 2'', Completed = True, CreatedAt = 2\<rparr>"
    by (simp add: count_creates_def request_A_def startup_batch_def processTask_def)
  from startup_ids_collide [OF a refl c [symmetric] b, of 20] a b c show ?thesis
    by simp
qed

end
